theory Spec2Isabelle
  imports Main "HOL-Library.Sublist"
begin

section \<open>Data model\<close>

text \<open>
  The user topology is the Python dict \<^verbatim>\<open>ANSIBLE_MODULE.params['topology']\<close>:
  container name to a dict holding \<^verbatim>\<open>parent_container\<close>. Python dicts iterate in
  insertion order and the resolver depends on that order, so the dict is an association
  list; its keys are distinct (\<open>distinct (map fst topo)\<close>) because it is a dict.
  Only \<^verbatim>\<open>parent_container\<close> is ever read by the modules, and the schema makes it a
  required string, so it is the single field of the record.
\<close>

record container_spec =
  parent_container :: string

type_synonym user_topology = "(string \<times> container_spec) list"

text \<open>Exceptions that can leave the code: inside the functions every remote failure is
  caught by a bare \<^verbatim>\<open>except:\<close>, so only failed dict subscripts remain; at the top
  level of the module a name that was never bound raises NameError.\<close>

datatype error = KeyError string | NameError string

section \<open>The CloudVision client\<close>

text \<open>
  \<^verbatim>\<open>cv_connection.api\<close> belongs to the external library cvprac. It is modelled as an
  arbitrary client over a state \<open>'s\<close>: each call either raises or returns a value, and
  moves the client (and the server behind it) to a new state. Returned dicts are records
  whose fields are optional, so that a missing key is a \<open>KeyError\<close> of the model.
\<close>

datatype 'a reply = Raises | Returns 'a

record cv_container =
  key :: "string option"

record topology_node =
  name :: "string option"

record topology_reply =
  topology :: "topology_node option"

record add_data =
  status :: "string option"
  taskIds :: "string list option"

record add_reply =
  data :: "add_data option"

record 's cvp_api =
  filter_topology :: "string \<Rightarrow> 's \<Rightarrow> topology_reply reply \<times> 's"
  get_container_by_name :: "string \<Rightarrow> 's \<Rightarrow> cv_container option reply \<times> 's"
  add_container :: "string \<Rightarrow> string \<Rightarrow> string option \<Rightarrow> 's \<Rightarrow> add_reply reply \<times> 's"

text \<open>The world threaded through the module: the client's state and the log of the
  remote calls made so far.\<close>

datatype call =
    FilterTopology string
  | GetContainerByName string
  | AddContainer string string "string option"

record 's world =
  remote :: 's
  calls :: "call list"

definition call_filter_topology ::
  "'s cvp_api \<Rightarrow> string \<Rightarrow> 's world \<Rightarrow> topology_reply reply \<times> 's world" where
  "call_filter_topology api node_id w =
     (case filter_topology api node_id (remote w) of
        (r, s) \<Rightarrow> (r, \<lparr>remote = s, calls = calls w @ [FilterTopology node_id]\<rparr>))"

definition call_get_container_by_name ::
  "'s cvp_api \<Rightarrow> string \<Rightarrow> 's world \<Rightarrow> cv_container option reply \<times> 's world" where
  "call_get_container_by_name api n w =
     (case get_container_by_name api n (remote w) of
        (r, s) \<Rightarrow> (r, \<lparr>remote = s, calls = calls w @ [GetContainerByName n]\<rparr>))"

definition call_add_container ::
  "'s cvp_api \<Rightarrow> string \<Rightarrow> string \<Rightarrow> string option \<Rightarrow> 's world \<Rightarrow> add_reply reply \<times> 's world" where
  "call_add_container api container_name parent_name parent_key w =
     (case add_container api container_name parent_name parent_key (remote w) of
        (r, s) \<Rightarrow> (r, \<lparr>remote = s,
                       calls = calls w @ [AddContainer container_name parent_name parent_key]\<rparr>))"

section \<open>cv\_container\_v3: helpers\<close>

text \<open>\<^verbatim>\<open>is_container_exist\<close>: True only when the lookup returns something that is not
  None; an exception is logged and answered False.\<close>

definition is_container_exist :: "'s cvp_api \<Rightarrow> string \<Rightarrow> 's world \<Rightarrow> bool \<times> 's world" where
  "is_container_exist api container w =
     (case call_get_container_by_name api container w of
        (Returns (Some c), w') \<Rightarrow> (True, w')
      | (Returns None, w') \<Rightarrow> (False, w')
      | (Raises, w') \<Rightarrow> (False, w'))"

text \<open>\<^verbatim>\<open>container_get_root\<close>: None when the call raises; otherwise
  \<^verbatim>\<open>cv_result['topology']['name']\<close>, read in the \<^verbatim>\<open>else:\<close> branch, outside the
  \<^verbatim>\<open>try\<close>.\<close>

definition container_get_root ::
  "'s cvp_api \<Rightarrow> 's world \<Rightarrow> (error + string option) \<times> 's world" where
  "container_get_root api w =
     (case call_filter_topology api ''root'' w of
        (Raises, w') \<Rightarrow> (Inr None, w')
      | (Returns cv_result, w') \<Rightarrow>
          (case topology cv_result of
             None \<Rightarrow> (Inl (KeyError ''topology''), w')
           | Some t \<Rightarrow>
               (case name t of
                  None \<Rightarrow> (Inl (KeyError ''name''), w')
                | Some n \<Rightarrow> (Inr (Some n), w'))))"

text \<open>\<^verbatim>\<open>container_get_id\<close>: \<^verbatim>\<open>result\<close> starts as \<^verbatim>\<open>dict()\<close>. When the lookup
  raises, the exception is logged, \<^verbatim>\<open>result\<close> is still the empty dict, which is not
  None, and \<^verbatim>\<open>result['key']\<close> raises KeyError.\<close>

definition container_get_id ::
  "'s cvp_api \<Rightarrow> string \<Rightarrow> 's world \<Rightarrow> (error + string option) \<times> 's world" where
  "container_get_id api container w =
     (case call_get_container_by_name api container w of
        (Raises, w') \<Rightarrow> (Inl (KeyError ''key''), w')
      | (Returns None, w') \<Rightarrow> (Inr None, w')
      | (Returns (Some result), w') \<Rightarrow>
          (case key result of
             None \<Rightarrow> (Inl (KeyError ''key''), w')
           | Some k \<Rightarrow> (Inr (Some k), w')))"

section \<open>cv\_container\_v3: the ordering resolver\<close>

text \<open>
  The body of the \<^verbatim>\<open>for\<close> loop of \<^verbatim>\<open>list_container_from_top\<close>, for one dict entry:
  two independent \<^verbatim>\<open>if\<close> statements, each appending the container. The root name is
  an option because \<^verbatim>\<open>container_get_root\<close> may return None, which equals no string.
\<close>

definition place_container ::
  "string option \<Rightarrow> string list \<Rightarrow> string \<times> container_spec \<Rightarrow> string list" where
  "place_container container_root_name result_list entry =
     (let container = fst entry;
          parent = parent_container (snd entry);
          r1 = (if Some parent = container_root_name
                then result_list @ [container] else result_list)
      in if parent \<in> set r1 then r1 @ [container] else r1)"

text \<open>One run of the \<^verbatim>\<open>for\<close> loop: every entry of the dict, in insertion order.\<close>

definition scan_pass :: "string option \<Rightarrow> user_topology \<Rightarrow> string list \<Rightarrow> string list" where
  "scan_pass container_root_name container_list result_list =
     foldl (place_container container_root_name) result_list container_list"

text \<open>The \<^verbatim>\<open>while\<close> loop. It may run forever, so it is a partial function: None is
  "does not return".\<close>

partial_function (option) build_from_top ::
  "user_topology \<Rightarrow> string option \<Rightarrow> string list \<Rightarrow> string list option" where
  "build_from_top container_list container_root_name result_list =
     (if length result_list < length container_list + 1
      then build_from_top container_list container_root_name
             (scan_pass container_root_name container_list result_list)
      else Some result_list)"

declare build_from_top.simps [code]

definition list_container_from_top ::
  "user_topology \<Rightarrow> string option \<Rightarrow> string list option" where
  "list_container_from_top container_list container_root_name =
     build_from_top container_list container_root_name []"

section \<open>cv\_container\_v3: creating containers\<close>

datatype task_ids = UNSET | TaskIds "string list"

record action_result =
  success :: bool
  taskIDs :: task_ids
  container :: string

text \<open>\<^verbatim>\<open>container_create\<close>. \<open>check_mode\<close> is \<^verbatim>\<open>ANSIBLE_MODULE.check_mode\<close>. The
  reply of \<^verbatim>\<open>add_container\<close> is read in the \<^verbatim>\<open>else:\<close> branch of the \<^verbatim>\<open>try\<close>,
  where a missing key is not caught. Whatever the create call did, the function
  returns \<^verbatim>\<open>"success": True\<close> once the parent was found.\<close>

definition container_create ::
  "bool \<Rightarrow> 's cvp_api \<Rightarrow> string \<Rightarrow> string \<Rightarrow> 's world \<Rightarrow> (error + action_result) \<times> 's world" where
  "container_create check_mode api cont parent w =
     (case is_container_exist api parent w of
        (True, w1) \<Rightarrow>
          (case container_get_id api parent w1 of
             (Inl e, w2) \<Rightarrow> (Inl e, w2)
           | (Inr parent_id, w2) \<Rightarrow>
               if check_mode
               then (Inr \<lparr>success = True, taskIDs = UNSET, container = cont\<rparr>, w2)
               else
                 (case call_add_container api cont parent parent_id w2 of
                    (Raises, w3) \<Rightarrow>
                      (Inr \<lparr>success = True, taskIDs = UNSET, container = cont\<rparr>, w3)
                  | (Returns resp, w3) \<Rightarrow>
                      (case data resp of
                         None \<Rightarrow> (Inl (KeyError ''data''), w3)
                       | Some d \<Rightarrow>
                           (case status d of
                              None \<Rightarrow> (Inl (KeyError ''status''), w3)
                            | Some st \<Rightarrow>
                                if st = ''success''
                                then (case taskIds d of
                                        None \<Rightarrow> (Inl (KeyError ''taskIds''), w3)
                                      | Some ts \<Rightarrow>
                                          (Inr \<lparr>success = True, taskIDs = TaskIds ts,
                                                container = cont\<rparr>, w3))
                                else (Inr \<lparr>success = True, taskIDs = UNSET,
                                           container = cont\<rparr>, w3)))))
      | (False, w1) \<Rightarrow> (Inr \<lparr>success = False, taskIDs = UNSET, container = cont\<rparr>, w1))"

record creation_data =
  count_new_containers :: int
  list_new_containers :: "string list"

text \<open>The body of the \<^verbatim>\<open>for\<close> loop of \<^verbatim>\<open>manager_containers_create\<close>, on the
  counter and the list built so far.\<close>

definition create_step ::
  "bool \<Rightarrow> 's cvp_api \<Rightarrow> user_topology \<Rightarrow> creation_data \<Rightarrow> string \<Rightarrow> 's world
     \<Rightarrow> (error + creation_data) \<times> 's world" where
  "create_step check_mode api user_topology acc user_container_name w =
     (case map_of user_topology user_container_name of
        None \<Rightarrow> (Inl (KeyError user_container_name), w)
      | Some spec \<Rightarrow>
          (case is_container_exist api (parent_container spec) w of
             (False, w1) \<Rightarrow> (Inr acc, w1)
           | (True, w1) \<Rightarrow>
               (case is_container_exist api user_container_name w1 of
                  (True, w2) \<Rightarrow> (Inr acc, w2)
                | (False, w2) \<Rightarrow>
                    (case container_create check_mode api user_container_name
                            (parent_container spec) w2 of
                       (Inl e, w3) \<Rightarrow> (Inl e, w3)
                     | (Inr r, w3) \<Rightarrow>
                         if success r
                         then (Inr \<lparr>count_new_containers = count_new_containers acc + 1,
                                    list_new_containers =
                                      list_new_containers acc @ [user_container_name]\<rparr>, w3)
                         else (Inr acc, w3)))))"

fun create_loop ::
  "bool \<Rightarrow> 's cvp_api \<Rightarrow> user_topology \<Rightarrow> string list \<Rightarrow> creation_data \<Rightarrow> 's world
     \<Rightarrow> (error + creation_data) \<times> 's world" where
  "create_loop check_mode api user_topology [] acc w = (Inr acc, w)"
| "create_loop check_mode api user_topology (c # cs) acc w =
     (case create_step check_mode api user_topology acc c w of
        (Inl e, w') \<Rightarrow> (Inl e, w')
      | (Inr acc', w') \<Rightarrow> create_loop check_mode api user_topology cs acc' w')"

text \<open>\<^verbatim>\<open>manager_containers_create\<close>: None when the resolver does not return.\<close>

definition manager_containers_create ::
  "bool \<Rightarrow> 's cvp_api \<Rightarrow> user_topology \<Rightarrow> 's world
     \<Rightarrow> ((error + creation_data) \<times> 's world) option" where
  "manager_containers_create check_mode api user_topology w =
     (case container_get_root api w of
        (Inl e, w1) \<Rightarrow> Some (Inl e, w1)
      | (Inr root_container_name, w1) \<Rightarrow>
          (case list_container_from_top user_topology root_container_name of
             None \<Rightarrow> None
           | Some ordered_list \<Rightarrow>
               Some (create_loop check_mode api user_topology ordered_list
                       \<lparr>count_new_containers = 0, list_new_containers = []\<rparr> w1)))"

section \<open>Module entry points\<close>

text \<open>
  The start of \<^verbatim>\<open>__main__\<close> of both modules, up to the creation of the client.
  \<^verbatim>\<open>fail_json\<close> ends the process, so each gate is the last thing that runs.
\<close>

datatype startup = FailJson string | Crash error | Proceed

text \<open>cv\_device\_v3. \<open>is_valid\<close> is the value of the property
  \<^verbatim>\<open>DeviceInventory.is_valid\<close> (module \<^verbatim>\<open>device_tools\<close>, not among the sources):
  True when the input is valid against the schema. The formatted device list at the
  end of the last message is left out.\<close>

definition cv_device_v3_main :: "string \<Rightarrow> bool \<Rightarrow> bool \<Rightarrow> bool \<Rightarrow> startup" where
  "cv_device_v3_main state HAS_CVPRAC HAS_JSONSCHEMA is_valid =
     (if state = ''absent'' then FailJson ''State==absent is not yet supported !''
      else if \<not> HAS_CVPRAC
      then FailJson ''cvprac required for this module. Please install using pip install cvprac''
      else if \<not> HAS_JSONSCHEMA
      then FailJson ''JSONSCHEMA is required. Please install using pip install jsonschema''
      else if is_valid
      then FailJson ''Error, your input is not valid against current schema:''
      else Proceed)"

text \<open>cv\_container\_v3. The module body runs before \<^verbatim>\<open>__main__\<close>: the
  annotation \<^verbatim>\<open>cv_connection: CvpClient()\<close> of \<^verbatim>\<open>facts_get_topology\<close> (line 53) is
  evaluated when the function is defined, so when the import of cvprac failed the name
  \<^verbatim>\<open>CvpClient\<close> is unbound and the module stops with NameError; the test
  \<^verbatim>\<open>if HAS_CVPRAC is False\<close> of \<^verbatim>\<open>__main__\<close> is then never reached, and with
  cvprac installed it is passed. \<open>valid\<close> is the result of
  \<^verbatim>\<open>schema.validate_cv_inputs\<close> (module \<^verbatim>\<open>schema\<close>, not among the sources) on the
  topology; \<open>params\<close> is \<^verbatim>\<open>ANSIBLE_MODULE.params\<close>, whose key \<^verbatim>\<open>configlets\<close> is
  read for the log line before \<^verbatim>\<open>fail_json\<close> is reached.\<close>

definition cv_container_v3_main ::
  "bool \<Rightarrow> bool \<Rightarrow> bool \<Rightarrow> (string \<rightharpoonup> 'v) \<Rightarrow> startup" where
  "cv_container_v3_main HAS_CVPRAC HAS_JSONSCHEMA valid params =
     (if \<not> HAS_CVPRAC
      then Crash (NameError ''CvpClient'')
      else if \<not> HAS_JSONSCHEMA
      then FailJson ''JSONSCHEMA is required. Please install using pip install jsonschema''
      else if \<not> valid
      then (case params ''configlets'' of
              None \<Rightarrow> Crash (KeyError ''configlets'')
            | Some v \<Rightarrow> FailJson ''Container input data are not compliant with module.'')
      else Proceed)"

section \<open>A simulated CloudVision server\<close>

text \<open>
  One concrete client, used to run the module on explicit inputs. The server holds its
  root container and an inventory of further containers (name and key). Two fault
  schedules say which of the coming lookups and which of the coming create calls raise
  (True raises); an empty schedule means every coming call is answered. A create call
  that is answered adds the container, unless the name is taken or the parent is
  unknown, which the server rejects.
\<close>

record cvp_state =
  root_name :: string
  root_key :: string
  inventory :: "(string \<times> string) list"
  lookup_faults :: "bool list"
  create_faults :: "bool list"

definition find_container :: "cvp_state \<Rightarrow> string \<Rightarrow> cv_container option" where
  "find_container s n =
     (if n = root_name s then Some \<lparr>key = Some (root_key s)\<rparr>
      else (case map_of (inventory s) n of
              None \<Rightarrow> None
            | Some k \<Rightarrow> Some \<lparr>key = Some k\<rparr>))"

definition sim_filter_topology :: "string \<Rightarrow> cvp_state \<Rightarrow> topology_reply reply \<times> cvp_state" where
  "sim_filter_topology node_id s =
     (Returns \<lparr>topology = Some \<lparr>name = Some (root_name s)\<rparr>\<rparr>, s)"

definition sim_get_container_by_name ::
  "string \<Rightarrow> cvp_state \<Rightarrow> cv_container option reply \<times> cvp_state" where
  "sim_get_container_by_name n s =
     (case lookup_faults s of
        [] \<Rightarrow> (Returns (find_container s n), s)
      | f # fs \<Rightarrow>
          (if f then Raises else Returns (find_container s n), s\<lparr>lookup_faults := fs\<rparr>))"

definition sim_insert :: "string \<Rightarrow> string \<Rightarrow> cvp_state \<Rightarrow> add_reply reply \<times> cvp_state" where
  "sim_insert n parent s =
     (if find_container s n \<noteq> None \<or> find_container s parent = None then (Raises, s)
      else (Returns \<lparr>data = Some \<lparr>status = Some ''success'', taskIds = Some []\<rparr>\<rparr>,
            s\<lparr>inventory := inventory s @ [(n, ''container_'' @ n)]\<rparr>))"

definition sim_add_container ::
  "string \<Rightarrow> string \<Rightarrow> string option \<Rightarrow> cvp_state \<Rightarrow> add_reply reply \<times> cvp_state" where
  "sim_add_container n parent parent_key s =
     (case create_faults s of
        [] \<Rightarrow> sim_insert n parent s
      | f # fs \<Rightarrow>
          (if f then (Raises, s\<lparr>create_faults := fs\<rparr>)
           else sim_insert n parent (s\<lparr>create_faults := fs\<rparr>)))"

definition cvp_sim :: "cvp_state cvp_api" where
  "cvp_sim = \<lparr>filter_topology = sim_filter_topology,
              get_container_by_name = sim_get_container_by_name,
              add_container = sim_add_container\<rparr>"

definition reliable :: "cvp_state \<Rightarrow> bool" where
  "reliable s \<longleftrightarrow> lookup_faults s = [] \<and> create_faults s = []"

definition tenant_only :: cvp_state where
  "tenant_only = \<lparr>root_name = ''Tenant'', root_key = ''root'', inventory = [],
                  lookup_faults = [], create_faults = []\<rparr>"

definition start :: "'s \<Rightarrow> 's world" where
  "start s = \<lparr>remote = s, calls = []\<rparr>"

text \<open>The topologies of the scenarios of the specification.\<close>

definition scenario_A :: user_topology where
  "scenario_A = [(''Fabric'', \<lparr>parent_container = ''Tenant''\<rparr>),
                 (''Spines'', \<lparr>parent_container = ''Fabric''\<rparr>)]"

definition scenario_C :: user_topology where
  "scenario_C = [(''Orphan'', \<lparr>parent_container = ''Ghost''\<rparr>)]"

definition single_fabric :: user_topology where
  "single_fabric = [(''Fabric'', \<lparr>parent_container = ''Tenant''\<rparr>)]"

definition fabric_orphan :: user_topology where
  "fabric_orphan = [(''Fabric'', \<lparr>parent_container = ''Tenant''\<rparr>),
                    (''Orphan'', \<lparr>parent_container = ''Ghost''\<rparr>)]"

definition reversed_chain :: user_topology where
  "reversed_chain = [(''D'', \<lparr>parent_container = ''C''\<rparr>),
                     (''C'', \<lparr>parent_container = ''B''\<rparr>),
                     (''B'', \<lparr>parent_container = ''A''\<rparr>),
                     (''A'', \<lparr>parent_container = ''Tenant''\<rparr>)]"

definition both_present :: cvp_state where
  "both_present = \<lparr>root_name = ''Tenant'', root_key = ''root'',
                   inventory = [(''Fabric'', ''container_Fabric''),
                                (''Spines'', ''container_Spines'')],
                   lookup_faults = [], create_faults = []\<rparr>"


definition no_containers :: creation_data where
  "no_containers = \<lparr>count_new_containers = 0, list_new_containers = []\<rparr>"

section \<open>Notions used by the statements\<close>

text \<open>A container can be placed after \<open>seen\<close> when some entry of the topology carries
  its name and has, as parent, the root name or a name of \<open>seen\<close>. A sequence is
  parents-first when each of its entries can be placed after the entries before it.\<close>

definition placeable :: "string option \<Rightarrow> user_topology \<Rightarrow> string list \<Rightarrow> string \<Rightarrow> bool" where
  "placeable root topo seen c =
     list_ex (\<lambda>entry. fst entry = c \<and>
                (Some (parent_container (snd entry)) = root \<or>
                 parent_container (snd entry) \<in> set seen)) topo"

fun parents_first ::
  "string option \<Rightarrow> user_topology \<Rightarrow> string list \<Rightarrow> string list \<Rightarrow> bool" where
  "parents_first root topo seen [] = True"
| "parents_first root topo seen (c # cs) =
     (placeable root topo seen c \<and> parents_first root topo (seen @ [c]) cs)"

text \<open>A container resolves when its chain of parents, followed through the keys of the
  topology, reaches the root name.\<close>

inductive resolves :: "string option \<Rightarrow> user_topology \<Rightarrow> string \<Rightarrow> bool"
  for root :: "string option" and topo :: user_topology where
  under_root:
    "(c, spec) \<in> set topo \<Longrightarrow> Some (parent_container spec) = root \<Longrightarrow> resolves root topo c"
| under_resolved:
    "(c, spec) \<in> set topo \<Longrightarrow> resolves root topo (parent_container spec)
       \<Longrightarrow> resolves root topo c"

text \<open>What the simulated server holds.\<close>

definition present :: "cvp_state \<Rightarrow> string \<Rightarrow> bool" where
  "present s n \<longleftrightarrow> find_container s n \<noteq> None"


text \<open>The remote calls made between two worlds, and those of them that create.\<close>

definition new_calls :: "'s world \<Rightarrow> 's world \<Rightarrow> call list" where
  "new_calls w w' = drop (length (calls w)) (calls w')"

fun is_create :: "call \<Rightarrow> bool" where
  "is_create (AddContainer c p k) = True"
| "is_create (GetContainerByName n) = False"
| "is_create (FilterTopology n) = False"

fun creates :: "string \<Rightarrow> call \<Rightarrow> bool" where
  "creates c (AddContainer c' p k) = (c' = c)"
| "creates c (GetContainerByName n) = False"
| "creates c (FilterTopology n) = False"

section \<open>The resolver: what it returns, and when it does not return\<close>

lemma build_from_top_invariant:
  assumes ret: "build_from_top topo root res = Some y"
    and init: "I res"
    and pass: "\<And>x. I x \<Longrightarrow> I (scan_pass root topo x)"
  shows "I y \<and> length topo < length y"
proof -
  have "build_from_top topo root res = Some y \<Longrightarrow>
        topo = topo \<longrightarrow> root = root \<longrightarrow> I res \<longrightarrow> I y \<and> length topo < length y"
  proof (rule build_from_top.raw_induct
         [where P = "\<lambda>t r x y. t = topo \<longrightarrow> r = root \<longrightarrow> I x \<longrightarrow> I y \<and> length topo < length y"])
    fix f :: "user_topology \<Rightarrow> string option \<Rightarrow> string list \<Rightarrow> string list option"
    fix t r x z
    assume IH: "\<And>t r x z. f t r x = Some z \<Longrightarrow>
                  t = topo \<longrightarrow> r = root \<longrightarrow> I x \<longrightarrow> I z \<and> length topo < length z"
    assume step: "(if length x < length t + 1 then f t r (scan_pass r t x) else Some x) = Some z"
    show "t = topo \<longrightarrow> r = root \<longrightarrow> I x \<longrightarrow> I z \<and> length topo < length z"
    proof (intro impI)
      assume t: "t = topo" and r: "r = root" and x: "I x"
      show "I z \<and> length topo < length z"
      proof (cases "length x < length t + 1")
        case True
        with step have "f t r (scan_pass r t x) = Some z" by simp
        from IH [OF this] pass [OF x] t r show ?thesis by simp
      next
        case False
        with step x t show ?thesis by auto
      qed
    qed
  qed
  with ret init show ?thesis by simp
qed

lemma parents_first_snoc:
  "parents_first root topo seen (xs @ [c]) \<longleftrightarrow>
     parents_first root topo seen xs \<and> placeable root topo (seen @ xs) c"
  by (induction xs arbitrary: seen) auto

lemma place_container_parents_first:
  assumes "parents_first root topo [] res" and "entry \<in> set topo"
  shows "parents_first root topo [] (place_container root res entry)"
  using assms
  by (auto simp: place_container_def Let_def parents_first_snoc placeable_def list_ex_iff)

lemma foldl_place_parents_first:
  "parents_first root topo [] res \<Longrightarrow> set es \<subseteq> set topo \<Longrightarrow>
   parents_first root topo [] (foldl (place_container root) res es)"
  by (induction es arbitrary: res) (auto simp: place_container_parents_first)

lemma scan_pass_parents_first:
  "parents_first root topo [] res \<Longrightarrow> parents_first root topo [] (scan_pass root topo res)"
  by (simp add: scan_pass_def foldl_place_parents_first)

lemma list_container_from_top_parents_first:
  assumes "list_container_from_top topo root = Some order"
  shows "parents_first root topo [] order \<and> length topo < length order"
  using build_from_top_invariant [where I = "parents_first root topo []", OF assms [unfolded list_container_from_top_def]]
  by (simp add: scan_pass_parents_first)

lemma parents_first_resolves:
  "parents_first root topo seen cs \<Longrightarrow> \<forall>s \<in> set seen. resolves root topo s \<Longrightarrow>
   \<forall>c \<in> set cs. resolves root topo c"
proof (induction cs arbitrary: seen)
  case Nil
  then show ?case by simp
next
  case (Cons c cs)
  from Cons.prems have pl: "placeable root topo seen c" and rest: "parents_first root topo (seen @ [c]) cs"
    by simp_all
  from pl Cons.prems(2) have rc: "resolves root topo c"
    by (auto simp: placeable_def list_ex_iff intro: resolves.intros)
  with Cons.prems(2) have "\<forall>s \<in> set (seen @ [c]). resolves root topo s" by simp
  from Cons.IH [OF rest this] rc show ?case by simp
qed

lemma build_from_top_not_stuck:
  "build_from_top topo root res = Some y \<Longrightarrow>
   \<not> (scan_pass root topo res = res \<and> length res < length topo + 1)"
proof (rule build_from_top.raw_induct
         [where P = "\<lambda>t r x y. \<not> (scan_pass r t x = x \<and> length x < length t + 1)"])
  fix f :: "user_topology \<Rightarrow> string option \<Rightarrow> string list \<Rightarrow> string list option"
  fix t r x y
  assume IH: "\<And>t r x y. f t r x = Some y \<Longrightarrow> \<not> (scan_pass r t x = x \<and> length x < length t + 1)"
  assume step: "(if length x < length t + 1 then f t r (scan_pass r t x) else Some x) = Some y"
  show "\<not> (scan_pass r t x = x \<and> length x < length t + 1)"
  proof
    assume st: "scan_pass r t x = x \<and> length x < length t + 1"
    with step have "f t r x = Some y" by simp
    from IH [OF this] st show False by simp
  qed
qed

lemma build_from_top_stuck:
  "scan_pass root topo res = res \<Longrightarrow> length res < length topo + 1 \<Longrightarrow>
   build_from_top topo root res = None"
  using build_from_top_not_stuck [of topo root res] by (cases "build_from_top topo root res") auto

lemma parents_first_keys:
  "parents_first root topo seen cs \<Longrightarrow> set cs \<subseteq> fst ` set topo"
  by (induction cs arbitrary: seen) (auto simp: placeable_def list_ex_iff)

text \<open>The resolver returns exactly when some container sits directly under the root
  name: each pass then appends at least that container, and otherwise no pass appends
  anything. An order it returns is longer than the topology, so it repeats a name.\<close>

lemma place_container_length: "length res \<le> length (place_container root res entry)"
  by (simp add: place_container_def Let_def)

lemma place_container_root_child:
  "Some (parent_container (snd entry)) = root \<Longrightarrow>
   length res < length (place_container root res entry)"
  by (simp add: place_container_def Let_def)

lemma foldl_place_length: "length res \<le> length (foldl (place_container root) res es)"
proof (induction es arbitrary: res)
  case Nil
  then show ?case by simp
next
  case (Cons e es)
  have "length res \<le> length (place_container root res e)" by (rule place_container_length)
  also have "\<dots> \<le> length (foldl (place_container root) (place_container root res e) es)"
    by (rule Cons.IH)
  finally show ?case by simp
qed

lemma foldl_place_grows:
  "entry \<in> set es \<Longrightarrow> Some (parent_container (snd entry)) = root \<Longrightarrow>
   length res < length (foldl (place_container root) res es)"
proof (induction es arbitrary: res)
  case Nil
  then show ?case by simp
next
  case (Cons e es)
  show ?case
  proof (cases "e = entry")
    case True
    with Cons.prems have "length res < length (place_container root res e)"
      by (simp add: place_container_root_child)
    also have "\<dots> \<le> length (foldl (place_container root) (place_container root res e) es)"
      by (rule foldl_place_length)
    finally show ?thesis by simp
  next
    case False
    with Cons.prems have "entry \<in> set es" by simp
    from Cons.IH [OF this Cons.prems(2)]
    have "length (place_container root res e)
            < length (foldl (place_container root) (place_container root res e) es)" .
    with place_container_length [of res root e] show ?thesis by simp
  qed
qed

lemma foldl_place_no_root_child:
  "\<forall>entry \<in> set es. Some (parent_container (snd entry)) \<noteq> root \<Longrightarrow>
   foldl (place_container root) [] es = []"
  by (induction es) (simp_all add: place_container_def Let_def)

lemma build_from_top_returns:
  assumes grow: "\<And>x. length x < length (scan_pass root topo x)"
  shows "\<exists>y. build_from_top topo root res = Some y"
proof (induction "length topo + 1 - length res" arbitrary: res rule: less_induct)
  case less
  show ?case
  proof (cases "length res < length topo + 1")
    case False
    then show ?thesis by (subst build_from_top.simps) simp
  next
    case True
    with grow [of res]
    have "length topo + 1 - length (scan_pass root topo res) < length topo + 1 - length res"
      by arith
    from less [OF this] obtain y where
      "build_from_top topo root (scan_pass root topo res) = Some y" by blast
    with True show ?thesis by (subst build_from_top.simps) simp
  qed
qed

lemma list_container_from_top_returns_iff:
  "(\<exists>order. list_container_from_top topo root = Some order) \<longleftrightarrow>
   (\<exists>entry \<in> set topo. Some (parent_container (snd entry)) = root)"
proof
  assume "\<exists>entry \<in> set topo. Some (parent_container (snd entry)) = root"
  then have "\<And>x. length x < length (scan_pass root topo x)"
    by (auto simp: scan_pass_def intro: foldl_place_grows)
  from build_from_top_returns [OF this] show "\<exists>order. list_container_from_top topo root = Some order"
    by (simp add: list_container_from_top_def)
next
  assume ret: "\<exists>order. list_container_from_top topo root = Some order"
  show "\<exists>entry \<in> set topo. Some (parent_container (snd entry)) = root"
  proof (rule ccontr)
    assume "\<not> (\<exists>entry \<in> set topo. Some (parent_container (snd entry)) = root)"
    then have "scan_pass root topo [] = []"
      by (simp add: scan_pass_def foldl_place_no_root_child)
    then have "build_from_top topo root [] = None"
      by (rule build_from_top_stuck) simp
    with ret show False by (simp add: list_container_from_top_def)
  qed
qed

lemma returned_order_repeats:
  assumes "list_container_from_top topo root = Some order"
  shows "\<not> distinct order"
proof
  assume d: "distinct order"
  from list_container_from_top_parents_first [OF assms]
  have pf: "parents_first root topo [] order" and len: "length topo < length order"
    by simp_all
  from parents_first_keys [OF pf] have "card (set order) \<le> card (fst ` set topo)"
    by (intro card_mono) auto
  also have "\<dots> \<le> length topo"
    by (metis card_image_le List.finite_set card_length le_trans)
  finally have "card (set order) \<le> length topo" .
  with d len show False by (simp add: distinct_card)
qed

section \<open>The change applier: remote calls and counters\<close>

lemma call_get_calls:
  "call_get_container_by_name api n w = (r, w') \<Longrightarrow> calls w' = calls w @ [GetContainerByName n]"
  by (auto simp: call_get_container_by_name_def split: prod.splits)

lemma call_add_calls:
  "call_add_container api c p k w = (r, w') \<Longrightarrow> calls w' = calls w @ [AddContainer c p k]"
  by (auto simp: call_add_container_def split: prod.splits)

lemma is_container_exist_calls:
  "is_container_exist api n w = (b, w') \<Longrightarrow> calls w' = calls w @ [GetContainerByName n]"
  by (auto simp: is_container_exist_def dest: call_get_calls split: prod.splits reply.splits option.splits)

lemma container_get_id_calls:
  "container_get_id api n w = (r, w') \<Longrightarrow> calls w' = calls w @ [GetContainerByName n]"
  by (auto simp: container_get_id_def dest: call_get_calls split: prod.splits reply.splits option.splits)

lemma container_create_calls:
  assumes "container_create check_mode api c p w = (r, w')"
  shows "\<exists>ls. calls w' = calls w @ ls \<and>
           (\<forall>x \<in> set ls. x = GetContainerByName p \<or> (\<not> check_mode \<and> (\<exists>k. x = AddContainer c p k)))"
  using assms unfolding container_create_def
  by (auto split: prod.splits bool.splits sum.splits if_splits reply.splits option.splits
        dest!: is_container_exist_calls container_get_id_calls call_add_calls)


lemma container_create_calls':
  assumes "container_create check_mode api c p w = (r, w')"
  shows "\<exists>ls. calls w' = calls w @ ls \<and>
           (\<forall>x \<in> set ls. \<not> is_create x \<or> (\<not> check_mode \<and> creates c x))"
proof -
  from container_create_calls [OF assms] obtain ls where
    ls: "calls w' = calls w @ ls"
        "\<forall>x \<in> set ls. x = GetContainerByName p \<or> (\<not> check_mode \<and> (\<exists>k. x = AddContainer c p k))"
    by blast
  from ls(2) have "\<forall>x \<in> set ls. \<not> is_create x \<or> (\<not> check_mode \<and> creates c x)"
    by fastforce
  with ls(1) show ?thesis by blast
qed

lemma create_step_calls:
  assumes "create_step check_mode api topo acc c w = (r, w')"
  shows "\<exists>ls. calls w' = calls w @ ls \<and>
           (\<forall>x \<in> set ls. \<not> is_create x \<or> (\<not> check_mode \<and> creates c x))"
proof (cases "map_of topo c")
  case None
  with assms have "w' = w" by (simp add: create_step_def)
  then show ?thesis by simp
next
  case (Some spec)
  obtain b1 w1 where e1: "is_container_exist api (parent_container spec) w = (b1, w1)"
    by (cases "is_container_exist api (parent_container spec) w")
  note c1 = is_container_exist_calls [OF e1]
  show ?thesis
  proof (cases b1)
    case False
    with assms Some e1 have "w' = w1" by (simp add: create_step_def)
    with c1 show ?thesis by simp
  next
    case True
    obtain b2 w2 where e2: "is_container_exist api c w1 = (b2, w2)"
      by (cases "is_container_exist api c w1")
    note c2 = is_container_exist_calls [OF e2]
    show ?thesis
    proof (cases b2)
      case True
      with assms Some e1 e2 \<open>b1\<close> have "w' = w2" by (simp add: create_step_def)
      with c1 c2 show ?thesis by simp
    next
      case False
      obtain r3 w3 where e3: "container_create check_mode api c (parent_container spec) w2 = (r3, w3)"
        by (cases "container_create check_mode api c (parent_container spec) w2")
      from assms Some e1 e2 e3 \<open>b1\<close> False have "w' = w3"
        by (auto simp: create_step_def split: sum.splits if_splits)
      from container_create_calls' [OF e3] obtain ls where
        ls: "calls w3 = calls w2 @ ls"
            "\<forall>x \<in> set ls. \<not> is_create x \<or> (\<not> check_mode \<and> creates c x)"
        by blast
      let ?all = "GetContainerByName (parent_container spec) # GetContainerByName c # ls"
      from ls c1 c2 \<open>w' = w3\<close> have "calls w' = calls w @ ?all" by simp
      moreover from ls(2) have "\<forall>x \<in> set ?all. \<not> is_create x \<or> (\<not> check_mode \<and> creates c x)"
        by simp
      ultimately show ?thesis by blast
    qed
  qed
qed

lemma create_step_acc:
  assumes "create_step check_mode api topo acc c w = (Inr acc', w')"
  shows "acc' = acc \<or>
         acc' = \<lparr>count_new_containers = count_new_containers acc + 1,
                 list_new_containers = list_new_containers acc @ [c]\<rparr>"
  using assms unfolding create_step_def
  by (auto split: prod.splits bool.splits sum.splits if_splits option.splits)

lemma create_loop_calls:
  "create_loop check_mode api topo cs acc w = (r, w') \<Longrightarrow>
   \<exists>ls. calls w' = calls w @ ls \<and>
     (\<forall>x \<in> set ls. \<not> is_create x \<or> (\<not> check_mode \<and> (\<exists>c \<in> set cs. creates c x)))"
proof (induction cs arbitrary: acc w)
  case Nil
  then show ?case by simp
next
  case (Cons c cs)
  obtain r1 w1 where e1: "create_step check_mode api topo acc c w = (r1, w1)"
    by (cases "create_step check_mode api topo acc c w")
  from create_step_calls [OF e1] obtain l1 where
    l1: "calls w1 = calls w @ l1"
        "\<forall>x \<in> set l1. \<not> is_create x \<or> (\<not> check_mode \<and> creates c x)"
    by blast
  show ?case
  proof (cases r1)
    case (Inl e)
    with Cons.prems e1 have "w' = w1" by simp
    with l1 show ?thesis by auto
  next
    case (Inr acc1)
    with Cons.prems e1 have "create_loop check_mode api topo cs acc1 w1 = (r, w')" by simp
    from Cons.IH [OF this] obtain l2 where
      l2: "calls w' = calls w1 @ l2"
          "\<forall>x \<in> set l2. \<not> is_create x \<or> (\<not> check_mode \<and> (\<exists>c \<in> set cs. creates c x))"
      by blast
    from l1 l2 have "calls w' = calls w @ (l1 @ l2)" by simp
    moreover from l1(2) l2(2)
    have "\<forall>x \<in> set (l1 @ l2). \<not> is_create x \<or> (\<not> check_mode \<and> (\<exists>c \<in> set (c # cs). creates c x))"
      by auto
    ultimately show ?thesis by blast
  qed
qed

lemma create_loop_acc:
  "create_loop check_mode api topo cs acc w = (Inr acc', w') \<Longrightarrow>
   \<exists>ns. subseq ns cs \<and> list_new_containers acc' = list_new_containers acc @ ns \<and>
        count_new_containers acc' = count_new_containers acc + int (length ns)"
proof (induction cs arbitrary: acc w)
  case Nil
  then show ?case by auto
next
  case (Cons c cs)
  obtain r1 w1 where e1: "create_step check_mode api topo acc c w = (r1, w1)"
    by (cases "create_step check_mode api topo acc c w")
  with Cons.prems obtain acc1 where r1: "r1 = Inr acc1"
    and rest: "create_loop check_mode api topo cs acc1 w1 = (Inr acc', w')"
    by (cases r1) auto
  from Cons.IH [OF rest] obtain ns where
    ns: "subseq ns cs" "list_new_containers acc' = list_new_containers acc1 @ ns"
        "count_new_containers acc' = count_new_containers acc1 + int (length ns)"
    by blast
  from create_step_acc [OF e1 [unfolded r1]]
  show ?case
  proof
    assume "acc1 = acc"
    with ns have "subseq ns (c # cs) \<and> list_new_containers acc' = list_new_containers acc @ ns \<and>
        count_new_containers acc' = count_new_containers acc + int (length ns)"
      by (simp add: list_emb_Cons)
    then show ?thesis by blast
  next
    assume "acc1 = \<lparr>count_new_containers = count_new_containers acc + 1,
                 list_new_containers = list_new_containers acc @ [c]\<rparr>"
    with ns have "subseq (c # ns) (c # cs) \<and> list_new_containers acc' = list_new_containers acc @ (c # ns) \<and>
        count_new_containers acc' = count_new_containers acc + int (length (c # ns))"
      by simp
    then show ?thesis by blast
  qed
qed

lemma new_calls_append: "calls w' = calls w @ ls \<Longrightarrow> new_calls w w' = ls"
  by (simp add: new_calls_def)

lemma container_get_root_calls:
  "container_get_root api w = (r, w') \<Longrightarrow> calls w' = calls w @ [FilterTopology ''root'']"
  by (auto simp: container_get_root_def call_filter_topology_def
        split: prod.splits reply.splits option.splits)


lemma container_create_missing_parent:
  assumes "is_container_exist api parent w = (False, w1)"
  shows "container_create check_mode api c parent w =
           (Inr \<lparr>success = False, taskIDs = UNSET, container = c\<rparr>, w1)"
  using assms by (simp add: container_create_def)

lemma create_step_missing_parent:
  assumes "map_of topo c = Some spec"
    and "is_container_exist api (parent_container spec) w = (False, w1)"
  shows "create_step check_mode api topo acc c w = (Inr acc, w1)"
  using assms by (simp add: create_step_def)


section \<open>Runs on the simulated server\<close>

lemmas sim_defs = cvp_sim_def sim_filter_topology_def sim_get_container_by_name_def
  sim_add_container_def sim_insert_def find_container_def
lemmas run_defs = container_get_root_def call_filter_topology_def call_get_container_by_name_def
  call_add_container_def is_container_exist_def container_get_id_def container_create_def
  create_step_def

lemma scenario_A_order:
  "list_container_from_top scenario_A (Some ''Tenant'') =
     Some [''Fabric'', ''Spines'', ''Fabric'', ''Spines'']"
  unfolding list_container_from_top_def
  apply (subst build_from_top.simps)
  apply (subst build_from_top.simps)
  apply (subst build_from_top.simps)
  apply (simp add: scenario_A_def scan_pass_def place_container_def Let_def)
  done

lemma single_fabric_order:
  "list_container_from_top single_fabric (Some ''Tenant'') = Some [''Fabric'', ''Fabric'']"
  unfolding list_container_from_top_def
  apply (subst build_from_top.simps)
  apply (subst build_from_top.simps)
  apply (subst build_from_top.simps)
  apply (simp add: single_fabric_def scan_pass_def place_container_def Let_def)
  done

lemma fabric_orphan_order:
  "list_container_from_top fabric_orphan (Some ''Tenant'') =
     Some [''Fabric'', ''Fabric'', ''Fabric'']"
  unfolding list_container_from_top_def
  apply (subst build_from_top.simps)
  apply (subst build_from_top.simps)
  apply (subst build_from_top.simps)
  apply (subst build_from_top.simps)
  apply (simp add: fabric_orphan_def scan_pass_def place_container_def Let_def)
  done

lemma scenario_C_order: "list_container_from_top scenario_C (Some ''Tenant'') = None"
  unfolding list_container_from_top_def
  by (rule build_from_top_stuck) (simp_all add: scenario_C_def scan_pass_def place_container_def)

lemma tenant_root:
  "container_get_root cvp_sim (start (tenant_only\<lparr>lookup_faults := lf, create_faults := cf\<rparr>)) =
     (Inr (Some ''Tenant''),
      \<lparr>remote = tenant_only\<lparr>lookup_faults := lf, create_faults := cf\<rparr>,
       calls = [FilterTopology ''root'']\<rparr>)"
  by (simp add: run_defs sim_defs start_def tenant_only_def)

lemma tenant_root0:
  "container_get_root cvp_sim (start tenant_only) =
     (Inr (Some ''Tenant''), \<lparr>remote = tenant_only, calls = [FilterTopology ''root'']\<rparr>)"
  by (simp add: run_defs sim_defs start_def tenant_only_def)

section \<open>Claims settled by running the code\<close>

text \<open>
  C2. The claim: the order returned by \<^verbatim>\<open>list_container_from_top\<close> holds every container
  exactly once, parents first, and for the topology Fabric under Tenant, Spines under
  Fabric it is Fabric, Spines. The code returns Fabric, Spines, Fabric, Spines: the
  \<^verbatim>\<open>while\<close> loop only stops once the list is longer than the topology, and nothing
  keeps a name from being appended again. The repeated names can also fill the list
  before every container is placed: for the chain D under C under B under A under
  Tenant, written leaf first, the loop stops without D.
\<close>

theorem scenario_A_order_repeats:
  "list_container_from_top scenario_A (Some ''Tenant'') =
     Some [''Fabric'', ''Spines'', ''Fabric'', ''Spines''] \<and>
   list_container_from_top reversed_chain (Some ''Tenant'') =
     Some [''A'', ''B'', ''A'', ''C'', ''B'', ''A'']"
proof
  show "list_container_from_top scenario_A (Some ''Tenant'') =
     Some [''Fabric'', ''Spines'', ''Fabric'', ''Spines'']"
    unfolding list_container_from_top_def
    apply (subst build_from_top.simps)
    apply (subst build_from_top.simps)
    apply (subst build_from_top.simps)
    apply (simp add: scenario_A_def scan_pass_def place_container_def Let_def)
    done
  show "list_container_from_top reversed_chain (Some ''Tenant'') =
     Some [''A'', ''B'', ''A'', ''C'', ''B'', ''A'']"
    unfolding list_container_from_top_def
    apply (subst build_from_top.simps)
    apply (subst build_from_top.simps)
    apply (subst build_from_top.simps)
    apply (subst build_from_top.simps)
    apply (simp add: reversed_chain_def scan_pass_def place_container_def Let_def)
    done
qed

text \<open>
  C3. The claim: a container whose create call does not end in a reply with status
  success, an exception included, is neither counted nor listed. Here both create calls
  for Fabric raise, nothing is created on the server, and the run reports two new
  containers, Fabric twice: \<^verbatim>\<open>container_create\<close> answers \<^verbatim>\<open>"success": True\<close> whenever
  the parent was found.
\<close>

theorem failed_create_is_counted:
  "manager_containers_create False cvp_sim single_fabric
     (start (tenant_only\<lparr>lookup_faults := [], create_faults := [True, True]\<rparr>)) =
   Some (Inr \<lparr>count_new_containers = 2, list_new_containers = [''Fabric'', ''Fabric'']\<rparr>,
         \<lparr>remote = tenant_only,
          calls = [FilterTopology ''root'', GetContainerByName ''Tenant'',
                   GetContainerByName ''Fabric'', GetContainerByName ''Tenant'',
                   GetContainerByName ''Tenant'',
                   AddContainer ''Fabric'' ''Tenant'' (Some ''root''),
                   GetContainerByName ''Tenant'', GetContainerByName ''Fabric'',
                   GetContainerByName ''Tenant'', GetContainerByName ''Tenant'',
                   AddContainer ''Fabric'' ''Tenant'' (Some ''root'')]\<rparr>)"
  unfolding manager_containers_create_def tenant_root
  by (simp add: single_fabric_order) (simp add: run_defs sim_defs single_fabric_def tenant_only_def)

text \<open>
  C4. The claim: a remote failure inside the loop, in an existence check, the key lookup
  or the create call, only affects its own container and never aborts the run. Here the
  fourth lookup, the one made by \<^verbatim>\<open>container_get_id\<close> for the parent of Fabric, raises:
  the run ends with an uncaught KeyError, and Spines is never looked at.
\<close>

theorem key_lookup_failure_aborts:
  "manager_containers_create False cvp_sim scenario_A
     (start (tenant_only\<lparr>lookup_faults := [False, False, False, True], create_faults := []\<rparr>)) =
   Some (Inl (KeyError ''key''),
         \<lparr>remote = tenant_only,
          calls = [FilterTopology ''root'', GetContainerByName ''Tenant'',
                   GetContainerByName ''Fabric'', GetContainerByName ''Tenant'',
                   GetContainerByName ''Tenant'']\<rparr>)"
  unfolding manager_containers_create_def tenant_root
  by (simp add: scenario_A_order) (simp add: run_defs sim_defs scenario_A_def tenant_only_def)

text \<open>
  C5. The claim: the module fails fast exactly when the input does not pass schema
  validation (or a library is missing), and valid input never takes the validation
  exit. In cv\_device\_v3 the test is \<^verbatim>\<open>if user_topology.is_valid:\<close>, so valid input
  is rejected with the message "your input is not valid", and invalid input goes on to
  connect. cv\_container\_v3 tests \<^verbatim>\<open>if not schema.validate_cv_inputs(...)\<close> and lets
  valid input through.
\<close>

theorem device_valid_input_fails:
  "cv_device_v3_main ''present'' True True True =
     FailJson ''Error, your input is not valid against current schema:'' \<and>
   cv_device_v3_main ''present'' True True False = Proceed \<and>
   cv_container_v3_main True True True params = Proceed"
  by (simp add: cv_device_v3_main_def cv_container_v3_main_def)

section \<open>Claims about one step of the change applier\<close>


text \<open>
  C8. A container whose parent does not exist remotely when it is processed is skipped
  silently: the step returns normally with the counter and the list unchanged, its only
  remote call is the lookup of the parent, the loop goes on with the next container, and
  \<^verbatim>\<open>container_create\<close> itself, called for such a container, answers
  \<^verbatim>\<open>"success": False\<close> after that one lookup.
\<close>

theorem missing_parent_skipped:
  assumes "map_of topo c = Some spec"
    and "is_container_exist api (parent_container spec) w = (False, w1)"
  shows "create_step check_mode api topo acc c w = (Inr acc, w1) \<and>
         new_calls w w1 = [GetContainerByName (parent_container spec)] \<and>
         create_loop check_mode api topo (c # cs) acc w =
           create_loop check_mode api topo cs acc w1 \<and>
         container_create check_mode api c (parent_container spec) w =
           (Inr \<lparr>success = False, taskIDs = UNSET, container = c\<rparr>, w1)"
proof -
  have step: "create_step check_mode api topo acc c w = (Inr acc, w1)"
    using assms by (rule create_step_missing_parent)
  have "new_calls w w1 = [GetContainerByName (parent_container spec)]"
    using is_container_exist_calls [OF assms(2)] by (rule new_calls_append)
  moreover have "create_loop check_mode api topo (c # cs) acc w =
      create_loop check_mode api topo cs acc w1"
    by (simp add: step)
  ultimately show ?thesis
    using step container_create_missing_parent [OF assms(2)] by simp
qed

theorem missing_parent_skipped_witness:
  "create_step False cvp_sim scenario_A no_containers ''Spines'' (start tenant_only) =
     (Inr no_containers, \<lparr>remote = tenant_only, calls = [GetContainerByName ''Fabric'']\<rparr>) \<and>
   new_calls (start tenant_only)
      \<lparr>remote = tenant_only, calls = [GetContainerByName ''Fabric'']\<rparr> =
     [GetContainerByName ''Fabric''] \<and>
   create_loop False cvp_sim scenario_A [''Spines''] no_containers (start tenant_only) =
     (Inr no_containers, \<lparr>remote = tenant_only, calls = [GetContainerByName ''Fabric'']\<rparr>)"
proof -
  have h1: "map_of scenario_A ''Spines'' = Some \<lparr>parent_container = ''Fabric''\<rparr>"
    by (simp add: scenario_A_def)
  have h2: "is_container_exist cvp_sim (parent_container \<lparr>parent_container = ''Fabric''\<rparr>)
              (start tenant_only) =
            (False, \<lparr>remote = tenant_only, calls = [GetContainerByName ''Fabric'']\<rparr>)"
    by (simp add: run_defs sim_defs start_def tenant_only_def)
  show ?thesis
    using missing_parent_skipped [OF h1 h2, of False no_containers "[]"] by simp
qed



section \<open>Claims about the result of a run\<close>

lemma run_A:
  "manager_containers_create False cvp_sim scenario_A (start tenant_only) =
     Some (Inr \<lparr>count_new_containers = 2, list_new_containers = [''Fabric'', ''Spines'']\<rparr>,
  \<lparr>remote = both_present,
     calls =
       [FilterTopology ''root'', GetContainerByName ''Tenant'',
        GetContainerByName ''Fabric'', GetContainerByName ''Tenant'',
        GetContainerByName ''Tenant'',
        AddContainer ''Fabric'' ''Tenant'' (Some ''root''),
        GetContainerByName ''Fabric'', GetContainerByName ''Spines'',
        GetContainerByName ''Fabric'', GetContainerByName ''Fabric'',
        AddContainer ''Spines'' ''Fabric'' (Some ''container_Fabric''),
        GetContainerByName ''Tenant'', GetContainerByName ''Fabric'',
        GetContainerByName ''Fabric'', GetContainerByName ''Spines'']\<rparr>)"
  unfolding manager_containers_create_def tenant_root0
  by (simp add: scenario_A_order)
     (simp add: run_defs sim_defs scenario_A_def tenant_only_def both_present_def)

text \<open>
  C10. In every result returned by \<^verbatim>\<open>manager_containers_create\<close> the counter is the
  length of the list, it is not negative, every listed name is a key of the topology,
  and the list is a subsequence of the order in which the containers were processed.
\<close>

theorem created_list_matches_count:
  assumes "manager_containers_create check_mode api topo w = Some (Inr r, w')"
  shows "count_new_containers r = int (length (list_new_containers r)) \<and>
         0 \<le> count_new_containers r \<and>
         set (list_new_containers r) \<subseteq> fst ` set topo \<and>
         (\<exists>root w1 order.
             container_get_root api w = (Inr root, w1) \<and>
             list_container_from_top topo root = Some order \<and>
             subseq (list_new_containers r) order)"
proof -
  obtain g w1 where g: "container_get_root api w = (g, w1)"
    by (cases "container_get_root api w")
  with assms obtain root where root: "g = Inr root"
    by (cases g) (auto simp: manager_containers_create_def)
  with assms g obtain order where
    order: "list_container_from_top topo root = Some order"
    and loop: "create_loop check_mode api topo order
                 \<lparr>count_new_containers = 0, list_new_containers = []\<rparr> w1 = (Inr r, w')"
    by (auto simp: manager_containers_create_def split: option.splits)
  from create_loop_acc [OF loop] obtain ns where
    ns: "subseq ns order" "list_new_containers r = ns" "count_new_containers r = int (length ns)"
    by auto
  from list_container_from_top_parents_first [OF order] have "set order \<subseteq> fst ` set topo"
    by (auto dest: parents_first_keys)
  moreover from ns(1) have "set ns \<subseteq> set order" by (auto elim: list_emb_set)
  ultimately show ?thesis using ns order g root by auto
qed

theorem created_list_matches_count_witness:
  "count_new_containers \<lparr>count_new_containers = 2, list_new_containers = [''Fabric'', ''Spines'']\<rparr> =
     int (length (list_new_containers
        \<lparr>count_new_containers = 2, list_new_containers = [''Fabric'', ''Spines'']\<rparr>)) \<and>
   set (list_new_containers
        \<lparr>count_new_containers = 2, list_new_containers = [''Fabric'', ''Spines'']\<rparr>)
     \<subseteq> fst ` set scenario_A \<and>
   subseq [''Fabric'', ''Spines''] [''Fabric'', ''Spines'', ''Fabric'', ''Spines'']"
  using created_list_matches_count [OF run_A]
  by (simp add: tenant_root0 scenario_A_order)

section \<open>Containers that do not resolve to the root\<close>

text \<open>
  C1. The claim: for a topology with a container whose parent is neither the root nor,
  through other keys, below the root, the resolver terminates, the run fails with a
  ConfigurationError and no remote call is made. On the topology Orphan under Ghost, with
  root name Tenant, no pass appends anything, the length test of the \<^verbatim>\<open>while\<close> loop
  stays true, and neither the resolver nor the run returns.
\<close>

theorem orphan_run_never_returns:
  "list_container_from_top scenario_C (Some ''Tenant'') = None \<and>
   manager_containers_create False cvp_sim scenario_C (start tenant_only) = None"
  by (simp add: scenario_C_order manager_containers_create_def tenant_root0)

text \<open>When some other container sits under the root the resolver does return: a
  container that does not resolve to the root name is then absent from the order, the run
  is the loop over that order, and no create call is issued for that container.\<close>

lemma unresolvable_container_left_out:
  assumes "\<not> resolves root topo c"
    and "container_get_root api w = (Inr root, w1)"
    and "manager_containers_create check_mode api topo w = Some (r, w')"
  shows "\<exists>order. list_container_from_top topo root = Some order \<and> c \<notin> set order \<and>
           (r, w') = create_loop check_mode api topo order no_containers w1 \<and>
           filter (creates c) (new_calls w w') = []"
proof -
  from assms(2,3) obtain order where
    order: "list_container_from_top topo root = Some order"
    and loop: "create_loop check_mode api topo order no_containers w1 = (r, w')"
    by (auto simp: manager_containers_create_def no_containers_def split: option.splits)
  from list_container_from_top_parents_first [OF order]
  have "\<forall>x \<in> set order. resolves root topo x"
    by (auto dest: parents_first_resolves)
  with assms(1) have notin: "c \<notin> set order" by blast
  from create_loop_calls [OF loop] obtain ls where
    ls: "calls w' = calls w1 @ ls"
        "\<forall>x \<in> set ls. \<not> is_create x \<or> (\<not> check_mode \<and> (\<exists>c' \<in> set order. creates c' x))"
    by blast
  have no: "\<not> creates c x" if "x \<in> set ls" for x
  proof (cases x)
    case (AddContainer c' p k)
    with ls(2) that have "c' \<in> set order" by auto
    with notin AddContainer show ?thesis by auto
  qed simp_all
  from container_get_root_calls [OF assms(2)] ls(1)
  have "new_calls w w' = FilterTopology ''root'' # ls" by (simp add: new_calls_def)
  with no have "filter (creates c) (new_calls w w') = []" by (simp add: filter_empty_conv)
  with order notin loop show ?thesis by simp
qed

lemma orphan_unresolved: "\<not> resolves (Some ''Tenant'') fabric_orphan ''Orphan''"
proof
  assume "resolves (Some ''Tenant'') fabric_orphan ''Orphan''"
  then show False
  proof (cases rule: resolves.cases)
    case (under_root spec)
    then show False by (auto simp: fabric_orphan_def)
  next
    case (under_resolved spec)
    then have "resolves (Some ''Tenant'') fabric_orphan ''Ghost''"
      by (auto simp: fabric_orphan_def)
    then show False
      by (cases rule: resolves.cases) (auto simp: fabric_orphan_def)
  qed
qed

lemma run_fabric_orphan:
  "manager_containers_create False cvp_sim fabric_orphan (start tenant_only) =
   Some (Inr \<lparr>count_new_containers = 1, list_new_containers = [''Fabric'']\<rparr>,
   \<lparr>remote = tenant_only\<lparr>inventory := [(''Fabric'', ''container_Fabric'')]\<rparr>,
      calls =
        [FilterTopology ''root'', GetContainerByName ''Tenant'',
         GetContainerByName ''Fabric'', GetContainerByName ''Tenant'',
         GetContainerByName ''Tenant'',
         AddContainer ''Fabric'' ''Tenant'' (Some ''root''),
         GetContainerByName ''Tenant'', GetContainerByName ''Fabric'',
         GetContainerByName ''Tenant'', GetContainerByName ''Fabric'']\<rparr>)"
  unfolding manager_containers_create_def tenant_root0
  by (simp add: fabric_orphan_order)
     (simp add: run_defs sim_defs fabric_orphan_def tenant_only_def)

lemma fabric_orphan_run_leaves_orphan_out:
  "list_container_from_top fabric_orphan (Some ''Tenant'') =
     Some [''Fabric'', ''Fabric'', ''Fabric''] \<and>
   ''Orphan'' \<notin> set [''Fabric'', ''Fabric'', ''Fabric''] \<and>
   filter (creates ''Orphan'')
     (new_calls (start tenant_only)
        \<lparr>remote = tenant_only\<lparr>inventory := [(''Fabric'', ''container_Fabric'')]\<rparr>,
         calls =
           [FilterTopology ''root'', GetContainerByName ''Tenant'',
            GetContainerByName ''Fabric'', GetContainerByName ''Tenant'',
            GetContainerByName ''Tenant'',
            AddContainer ''Fabric'' ''Tenant'' (Some ''root''),
            GetContainerByName ''Tenant'', GetContainerByName ''Fabric'',
            GetContainerByName ''Tenant'', GetContainerByName ''Fabric'']\<rparr>) = []"
  using unresolvable_container_left_out [OF orphan_unresolved tenant_root0 run_fabric_orphan]
  by (simp add: fabric_orphan_order)

section \<open>Running twice\<close>

lemma present_root: "present s (root_name s)"
  by (simp add: present_def find_container_def)

lemma find_container_key: "find_container s n = Some c \<Longrightarrow> \<exists>k. key c = Some k"
  by (auto simp: find_container_def split: if_splits option.splits)

lemma sim_is_container_exist:
  "reliable (remote w) \<Longrightarrow>
   is_container_exist cvp_sim n w =
     (present (remote w) n, \<lparr>remote = remote w, calls = calls w @ [GetContainerByName n]\<rparr>)"
  by (auto simp: is_container_exist_def call_get_container_by_name_def cvp_sim_def
        sim_get_container_by_name_def reliable_def present_def split: option.splits)

lemma sim_container_get_id:
  "reliable (remote w) \<Longrightarrow> present (remote w) n \<Longrightarrow>
   \<exists>k. container_get_id cvp_sim n w =
     (Inr (Some k), \<lparr>remote = remote w, calls = calls w @ [GetContainerByName n]\<rparr>)"
  by (auto simp: container_get_id_def call_get_container_by_name_def cvp_sim_def
        sim_get_container_by_name_def reliable_def present_def
        dest: find_container_key split: option.splits)

lemma sim_insert_absent:
  assumes "present s parent" and "\<not> present s c"
  shows "\<exists>s'. sim_insert c parent s =
           (Returns \<lparr>data = Some \<lparr>status = Some ''success'', taskIds = Some []\<rparr>\<rparr>, s') \<and>
         lookup_faults s' = lookup_faults s \<and> create_faults s' = create_faults s \<and>
         root_name s' = root_name s \<and> present s' c \<and> (\<forall>n. present s n \<longrightarrow> present s' n)"
  using assms
  by (auto simp: sim_insert_def present_def find_container_def split: option.splits)

lemma sim_container_create:
  assumes rel: "reliable (remote w)" and par: "present (remote w) parent"
    and abs: "\<not> present (remote w) c"
  shows "\<exists>ts w'. container_create False cvp_sim c parent w =
            (Inr \<lparr>success = True, taskIDs = ts, container = c\<rparr>, w') \<and>
          reliable (remote w') \<and> root_name (remote w') = root_name (remote w) \<and>
          present (remote w') c \<and> (\<forall>n. present (remote w) n \<longrightarrow> present (remote w') n)"
proof -
  let ?w1 = "\<lparr>remote = remote w, calls = calls w @ [GetContainerByName parent]\<rparr>"
  have e1: "is_container_exist cvp_sim parent w = (True, ?w1)"
    using sim_is_container_exist [OF rel, of parent] par by simp
  have rel1: "reliable (remote ?w1)" and par1: "present (remote ?w1) parent"
    using rel par by simp_all
  from sim_container_get_id [OF rel1 par1] obtain k where
    e2: "container_get_id cvp_sim parent ?w1 =
           (Inr (Some k), \<lparr>remote = remote w,
                           calls = calls w @ [GetContainerByName parent, GetContainerByName parent]\<rparr>)"
    by auto
  let ?w2 = "\<lparr>remote = remote w,
              calls = calls w @ [GetContainerByName parent, GetContainerByName parent]\<rparr>"
  from sim_insert_absent [OF par abs] obtain s' where
    ins: "sim_insert c parent (remote w) =
           (Returns \<lparr>data = Some \<lparr>status = Some ''success'', taskIds = Some []\<rparr>\<rparr>, s')"
    and keep: "lookup_faults s' = lookup_faults (remote w)" "create_faults s' = create_faults (remote w)"
      "root_name s' = root_name (remote w)" "present s' c"
      "\<forall>n. present (remote w) n \<longrightarrow> present s' n"
    by blast
  have e3: "call_add_container cvp_sim c parent (Some k) ?w2 =
          (Returns \<lparr>data = Some \<lparr>status = Some ''success'', taskIds = Some []\<rparr>\<rparr>,
           \<lparr>remote = s', calls = calls ?w2 @ [AddContainer c parent (Some k)]\<rparr>)"
    using rel ins by (simp add: call_add_container_def cvp_sim_def sim_add_container_def reliable_def)
  have "container_create False cvp_sim c parent w =
          (Inr \<lparr>success = True, taskIDs = TaskIds [], container = c\<rparr>,
           \<lparr>remote = s', calls = calls ?w2 @ [AddContainer c parent (Some k)]\<rparr>)"
    unfolding container_create_def e1 by (simp add: e2 e3)
  with keep rel show ?thesis by (simp add: reliable_def)
qed

lemma sim_step_first_run:
  assumes rel: "reliable (remote w)" and spec: "map_of topo c = Some spec"
  shows "\<exists>acc' w'. create_step False cvp_sim topo acc c w = (Inr acc', w') \<and>
          reliable (remote w') \<and> root_name (remote w') = root_name (remote w) \<and>
          (\<forall>n. present (remote w) n \<longrightarrow> present (remote w') n) \<and>
          (present (remote w) (parent_container spec) \<longrightarrow> present (remote w') c)"
proof (cases "present (remote w) (parent_container spec)")
  case False
  then show ?thesis
    using rel spec by (simp add: create_step_def sim_is_container_exist)
next
  case par: True
  let ?w1 = "\<lparr>remote = remote w, calls = calls w @ [GetContainerByName (parent_container spec)]\<rparr>"
  have rel1: "reliable (remote ?w1)" using rel by simp
  show ?thesis
  proof (cases "present (remote w) c")
    case True
    then show ?thesis
      using rel rel1 spec par
      by (simp add: create_step_def sim_is_container_exist)
  next
    case False
    let ?w2 = "\<lparr>remote = remote w,
                calls = calls w @ [GetContainerByName (parent_container spec), GetContainerByName c]\<rparr>"
    have rel2: "reliable (remote ?w2)" "present (remote ?w2) (parent_container spec)"
       "\<not> present (remote ?w2) c"
      using rel par False by simp_all
    from sim_container_create [OF rel2] obtain ts w' where
      cc: "container_create False cvp_sim c (parent_container spec) ?w2 =
            (Inr \<lparr>success = True, taskIDs = ts, container = c\<rparr>, w')"
      and keep: "reliable (remote w')" "root_name (remote w') = root_name (remote w)"
          "present (remote w') c" "\<forall>n. present (remote w) n \<longrightarrow> present (remote w') n"
      by auto
    have "create_step False cvp_sim topo acc c w =
            (Inr \<lparr>count_new_containers = count_new_containers acc + 1,
                  list_new_containers = list_new_containers acc @ [c]\<rparr>, w')"
      using rel rel1 spec par False cc
      by (simp add: create_step_def sim_is_container_exist)
    with keep show ?thesis by simp
  qed
qed

lemma sim_step_second_run:
  assumes rel: "reliable (remote w)" and spec: "map_of topo c = Some spec"
    and here: "present (remote w) c"
  shows "\<exists>w'. create_step check_mode cvp_sim topo acc c w = (Inr acc, w') \<and> remote w' = remote w"
proof -
  let ?w1 = "\<lparr>remote = remote w, calls = calls w @ [GetContainerByName (parent_container spec)]\<rparr>"
  have rel1: "reliable (remote ?w1)" using rel by simp
  show ?thesis
    using rel rel1 spec here
    by (cases "present (remote w) (parent_container spec)")
       (simp_all add: create_step_def sim_is_container_exist)
qed

lemma placeable_entry:
  assumes "placeable root topo seen c" and "distinct (map fst topo)"
  shows "\<exists>spec. map_of topo c = Some spec \<and>
           (Some (parent_container spec) = root \<or> parent_container spec \<in> set seen)"
proof -
  from assms(1) obtain entry where
    e: "entry \<in> set topo" "fst entry = c"
       "Some (parent_container (snd entry)) = root \<or> parent_container (snd entry) \<in> set seen"
    by (auto simp: placeable_def list_ex_iff)
  from e(1,2) have "(c, snd entry) \<in> set topo" by (cases entry) auto
  with assms(2) have "map_of topo c = Some (snd entry)" by simp
  with e(3) show ?thesis by blast
qed

lemma sim_loop_first_run:
  assumes "distinct (map fst topo)"
  shows "reliable (remote w) \<Longrightarrow> parents_first (Some (root_name (remote w))) topo seen cs \<Longrightarrow>
     \<forall>n \<in> set seen. present (remote w) n \<Longrightarrow>
     \<exists>acc' w'. create_loop False cvp_sim topo cs acc w = (Inr acc', w') \<and>
        reliable (remote w') \<and> root_name (remote w') = root_name (remote w) \<and>
        (\<forall>n \<in> set seen \<union> set cs. present (remote w') n)"
proof (induction cs arbitrary: seen acc w)
  case Nil
  then show ?case by simp
next
  case (Cons c cs)
  from Cons.prems(2) have pl: "placeable (Some (root_name (remote w))) topo seen c"
    and rest: "parents_first (Some (root_name (remote w))) topo (seen @ [c]) cs"
    by simp_all
  from placeable_entry [OF pl assms] obtain spec where
    spec: "map_of topo c = Some spec"
    and par: "parent_container spec = root_name (remote w) \<or> parent_container spec \<in> set seen"
    by auto
  from par Cons.prems(3) have parent: "present (remote w) (parent_container spec)"
    by (auto simp: present_root)
  from sim_step_first_run [OF Cons.prems(1) spec, of acc] parent obtain acc1 w1 where
    step: "create_step False cvp_sim topo acc c w = (Inr acc1, w1)"
    and rel1: "reliable (remote w1)"
    and root1: "root_name (remote w1) = root_name (remote w)"
    and mono1: "\<forall>n. present (remote w) n \<longrightarrow> present (remote w1) n"
    and c1: "present (remote w1) c"
    by blast
  from rest root1 have rest1: "parents_first (Some (root_name (remote w1))) topo (seen @ [c]) cs"
    by simp
  from Cons.prems(3) mono1 c1 have seen1: "\<forall>n \<in> set (seen @ [c]). present (remote w1) n"
    by simp
  from Cons.IH [OF rel1 rest1 seen1, of acc1] obtain acc' w' where
    loop: "create_loop False cvp_sim topo cs acc1 w1 = (Inr acc', w')"
    and fin: "reliable (remote w')" "root_name (remote w') = root_name (remote w1)"
       "\<forall>n \<in> set (seen @ [c]) \<union> set cs. present (remote w') n"
    by blast
  from step loop have "create_loop False cvp_sim topo (c # cs) acc w = (Inr acc', w')" by simp
  with fin root1 show ?case by auto
qed

lemma sim_loop_second_run:
  "reliable (remote w) \<Longrightarrow> \<forall>c \<in> set cs. present (remote w) c \<and> map_of topo c \<noteq> None \<Longrightarrow>
   \<exists>w'. create_loop check_mode cvp_sim topo cs acc w = (Inr acc, w') \<and> remote w' = remote w"
proof (induction cs arbitrary: w)
  case Nil
  then show ?case by simp
next
  case (Cons c cs)
  from Cons.prems(2) obtain spec where spec: "map_of topo c = Some spec"
    and here: "present (remote w) c"
    by auto
  from sim_step_second_run [OF Cons.prems(1) spec here, of check_mode acc] obtain w1 where
    step: "create_step check_mode cvp_sim topo acc c w = (Inr acc, w1)"
    and same: "remote w1 = remote w"
    by blast
  from Cons.prems same have "reliable (remote w1)"
    "\<forall>c \<in> set cs. present (remote w1) c \<and> map_of topo c \<noteq> None"
    by simp_all
  from Cons.IH [OF this] obtain w' where
    "create_loop check_mode cvp_sim topo cs acc w1 = (Inr acc, w')" "remote w' = remote w1"
    by blast
  with step same show ?case by simp
qed

lemma sim_container_get_root:
  "container_get_root cvp_sim w =
     (Inr (Some (root_name (remote w))),
      \<lparr>remote = remote w, calls = calls w @ [FilterTopology ''root'']\<rparr>)"
  by (simp add: container_get_root_def call_filter_topology_def cvp_sim_def
        sim_filter_topology_def)

text \<open>
  C6, amended. Against a server that answers every call and performs every create, after
  a completed first run that was not in check mode, a second run (in either mode) on the
  world the first one left returns a zero counter and an empty list, and leaves the
  server as it was.
\<close>

theorem second_run_creates_nothing:
  assumes keys: "distinct (map fst topo)"
    and rel: "reliable (remote w)"
    and first: "manager_containers_create False cvp_sim topo w = Some (r1, w1)"
  shows "\<exists>w2. manager_containers_create check_mode cvp_sim topo w1 =
           Some (Inr \<lparr>count_new_containers = 0, list_new_containers = []\<rparr>, w2) \<and>
         remote w2 = remote w1"
proof -
  let ?root = "Some (root_name (remote w))"
  let ?w0 = "\<lparr>remote = remote w, calls = calls w @ [FilterTopology ''root'']\<rparr>"
  let ?none = "\<lparr>count_new_containers = 0, list_new_containers = []\<rparr>"
  from first obtain order where
    order: "list_container_from_top topo ?root = Some order"
    and loop1: "create_loop False cvp_sim topo order ?none ?w0 = (r1, w1)"
    by (auto simp: manager_containers_create_def sim_container_get_root split: option.splits)
  from list_container_from_top_parents_first [OF order]
  have pf: "parents_first ?root topo [] order" by simp
  have rel0: "reliable (remote ?w0)" using rel by simp
  from sim_loop_first_run [OF keys rel0, of "[]" order ?none] pf loop1
  have rel1: "reliable (remote w1)" and root1: "root_name (remote w1) = root_name (remote w)"
    and all1: "\<forall>n \<in> set order. present (remote w1) n"
    by auto
  let ?w1 = "\<lparr>remote = remote w1, calls = calls w1 @ [FilterTopology ''root'']\<rparr>"
  from parents_first_keys [OF pf] have "\<forall>c \<in> set order. map_of topo c \<noteq> None"
    by (auto simp: map_of_eq_None_iff)
  with all1 rel1 have "reliable (remote ?w1)"
    "\<forall>c \<in> set order. present (remote ?w1) c \<and> map_of topo c \<noteq> None"
    by simp_all
  from sim_loop_second_run [OF this, of check_mode ?none] obtain w2 where
    "create_loop check_mode cvp_sim topo order ?none ?w1 = (Inr ?none, w2)"
    "remote w2 = remote ?w1"
    by blast
  with order root1 show ?thesis
    by (simp add: manager_containers_create_def sim_container_get_root)
qed

theorem second_run_creates_nothing_witness:
  "distinct (map fst scenario_A) \<and> reliable (remote (start tenant_only)) \<and>
   map_option fst
     (manager_containers_create False cvp_sim scenario_A
        \<lparr>remote = both_present,
         calls =
           [FilterTopology ''root'', GetContainerByName ''Tenant'',
            GetContainerByName ''Fabric'', GetContainerByName ''Tenant'',
            GetContainerByName ''Tenant'',
            AddContainer ''Fabric'' ''Tenant'' (Some ''root''),
            GetContainerByName ''Fabric'', GetContainerByName ''Spines'',
            GetContainerByName ''Fabric'', GetContainerByName ''Fabric'',
            AddContainer ''Spines'' ''Fabric'' (Some ''container_Fabric''),
            GetContainerByName ''Tenant'', GetContainerByName ''Fabric'',
            GetContainerByName ''Fabric'', GetContainerByName ''Spines'']\<rparr>) =
   Some (Inr \<lparr>count_new_containers = 0, list_new_containers = []\<rparr>)"
proof -
  have h1: "distinct (map fst scenario_A)" by (simp add: scenario_A_def)
  have h2: "reliable (remote (start tenant_only))"
    by (simp add: reliable_def start_def tenant_only_def)
  show ?thesis
    using h1 h2 second_run_creates_nothing [OF h1 h2 run_A, of False] by auto
qed

lemma tenant_root_any:
  "container_get_root cvp_sim \<lparr>remote = tenant_only, calls = cs\<rparr> =
     (Inr (Some ''Tenant''), \<lparr>remote = tenant_only, calls = cs @ [FilterTopology ''root'']\<rparr>)"
  by (simp add: run_defs sim_defs tenant_only_def)

text \<open>
  C6, as stated: a second run against the state left by a completed first run reports
  no new container. In check mode the first run creates nothing and counts Fabric (twice,
  once for each time the order lists it); the second run, on the world the first one
  left, counts the same again.
\<close>

theorem dry_run_twice_counts_again:
  "manager_containers_create True cvp_sim scenario_A (start tenant_only) =
     Some (Inr \<lparr>count_new_containers = 2, list_new_containers = [''Fabric'', ''Fabric'']\<rparr>,
           \<lparr>remote = tenant_only,
            calls = [FilterTopology ''root'', GetContainerByName ''Tenant'',
                     GetContainerByName ''Fabric'', GetContainerByName ''Tenant'',
                     GetContainerByName ''Tenant'', GetContainerByName ''Fabric'',
                     GetContainerByName ''Tenant'', GetContainerByName ''Fabric'',
                     GetContainerByName ''Tenant'', GetContainerByName ''Tenant'',
                     GetContainerByName ''Fabric'']\<rparr>) \<and>
   map_option (count_new_containers \<circ> projr \<circ> fst)
     (manager_containers_create True cvp_sim scenario_A
         \<lparr>remote = tenant_only,
          calls = [FilterTopology ''root'', GetContainerByName ''Tenant'',
                   GetContainerByName ''Fabric'', GetContainerByName ''Tenant'',
                   GetContainerByName ''Tenant'', GetContainerByName ''Fabric'',
                   GetContainerByName ''Tenant'', GetContainerByName ''Fabric'',
                   GetContainerByName ''Tenant'', GetContainerByName ''Tenant'',
                   GetContainerByName ''Fabric'']\<rparr>) = Some 2"
proof -
  have one: "manager_containers_create True cvp_sim scenario_A (start tenant_only) =
     Some (Inr \<lparr>count_new_containers = 2, list_new_containers = [''Fabric'', ''Fabric'']\<rparr>,
           \<lparr>remote = tenant_only,
            calls = [FilterTopology ''root'', GetContainerByName ''Tenant'',
                     GetContainerByName ''Fabric'', GetContainerByName ''Tenant'',
                     GetContainerByName ''Tenant'', GetContainerByName ''Fabric'',
                     GetContainerByName ''Tenant'', GetContainerByName ''Fabric'',
                     GetContainerByName ''Tenant'', GetContainerByName ''Tenant'',
                     GetContainerByName ''Fabric'']\<rparr>)"
    unfolding manager_containers_create_def tenant_root0
    by (simp add: scenario_A_order) (simp add: run_defs sim_defs scenario_A_def tenant_only_def)
  have two: "map_option (count_new_containers \<circ> projr \<circ> fst)
     (manager_containers_create True cvp_sim scenario_A
         \<lparr>remote = tenant_only,
          calls = [FilterTopology ''root'', GetContainerByName ''Tenant'',
                   GetContainerByName ''Fabric'', GetContainerByName ''Tenant'',
                   GetContainerByName ''Tenant'', GetContainerByName ''Fabric'',
                   GetContainerByName ''Tenant'', GetContainerByName ''Fabric'',
                   GetContainerByName ''Tenant'', GetContainerByName ''Tenant'',
                   GetContainerByName ''Fabric'']\<rparr>) = Some 2"
    unfolding manager_containers_create_def tenant_root_any
    by (simp add: scenario_A_order) (simp add: run_defs sim_defs scenario_A_def tenant_only_def)
  from one two show ?thesis by (rule conjI)
qed

section \<open>Containers the server already holds\<close>






end
